theory Spec2Isabelle
  imports Complex_Main
begin

section \<open>Numbers and strings\<close>

text \<open>
  The program is TypeScript. Its \<open>number\<close> values are IEEE-754 doubles. They are modelled
  as \<^typ>\<open>real\<close> (counts and array lengths as \<^typ>\<open>nat\<close>, results of \<open>Math.round\<close> as
  \<^typ>\<open>int\<close>). Where the source hands an expression to \<open>Math.round\<close>, an error in the last
  bit can change the integer returned, so every operation of such an expression is
  rounded to the nearest double with \<open>fl\<close>, as the machine does: the two quotients of
  \<open>wordsPerMinute\<close>, and the average and the weighted sum of \<open>overallClarityScore\<close>.
  Elsewhere the arithmetic is exact. Overflow to an infinity is outside the model. A
  division whose divisor the source guards is written with the same guard.
\<close>

definition binade :: "real \<Rightarrow> int" where
  \<comment> \<open>The exponent of the binade of \<open>x \<noteq> 0\<close>: \<open>2 ^ e \<le> \<bar>x\<bar> < 2 ^ (e + 1)\<close>, and -1022
      for the subnormal numbers.\<close>
  "binade x = max (- 1022) \<lfloor>log 2 \<bar>x\<bar>\<rfloor>"

definition roundTiesToEven :: "real \<Rightarrow> int" where
  "roundTiesToEven q =
     (if q - of_int \<lfloor>q\<rfloor> < 1 / 2 then \<lfloor>q\<rfloor>
      else if q - of_int \<lfloor>q\<rfloor> > 1 / 2 then \<lfloor>q\<rfloor> + 1
      else if even \<lfloor>q\<rfloor> then \<lfloor>q\<rfloor> else \<lfloor>q\<rfloor> + 1)"

definition fl :: "real \<Rightarrow> real" where
  \<comment> \<open>The double nearest to \<open>x\<close>: a multiple of \<open>2 ^ (e - 52)\<close> in the binade \<open>e\<close> of \<open>x\<close>
      (53 significant bits), a tie going to the even multiple.\<close>
  "fl x = (if x = 0 then 0
           else of_int (roundTiesToEven (x / 2 powr (of_int (binade x) - 52)))
                * 2 powr (of_int (binade x) - 52))"

definition dadd :: "real \<Rightarrow> real \<Rightarrow> real" where
  \<comment> \<open>\<open>a + b\<close> on doubles\<close>
  "dadd a b = fl (a + b)"

definition dmul :: "real \<Rightarrow> real \<Rightarrow> real" where
  \<comment> \<open>\<open>a * b\<close> on doubles\<close>
  "dmul a b = fl (a * b)"

definition ddiv :: "real \<Rightarrow> real \<Rightarrow> real" where
  \<comment> \<open>\<open>a / b\<close> on doubles, for \<open>b \<noteq> 0\<close>\<close>
  "ddiv a b = fl (a / b)"

definition js_round :: "real \<Rightarrow> int" where
  \<comment> \<open>\<open>Math.round\<close>: the nearest integer, a tie going towards plus infinity.\<close>
  "js_round x = \<lfloor>x + 1 / 2\<rfloor>"

definition js_div :: "real \<Rightarrow> real \<Rightarrow> real option" where
  \<comment> \<open>\<open>a / b\<close> as a finite number: with \<open>b = 0\<close> JavaScript yields an infinity or NaN,
      which is \<open>None\<close> here.\<close>
  "js_div a b = (if b = 0 then None else Some (a / b))"

definition is_ws :: "char \<Rightarrow> bool" where
  \<comment> \<open>The white space and line terminators of ECMAScript among the 8-bit characters:
      TAB, LF, VT, FF, CR, SPACE and NBSP.\<close>
  "is_ws c = (of_char c \<in> {9, 10, 11, 12, 13, 32, 160 :: nat})"

definition trim :: "string \<Rightarrow> string" where
  \<comment> \<open>\<open>String.prototype.trim\<close>\<close>
  "trim s = rev (dropWhile is_ws (rev (dropWhile is_ws s)))"

fun join :: "string \<Rightarrow> string list \<Rightarrow> string" where
  \<comment> \<open>\<open>Array.prototype.join\<close>\<close>
  "join sep [] = []"
| "join sep [x] = x"
| "join sep (x # y # ys) = x @ sep @ join sep (y # ys)"

function collapse_ws :: "string \<Rightarrow> string" where
  \<comment> \<open>\<open>.replace(/\s+/g, ' ')\<close>: every maximal run of white space becomes one space.\<close>
  "collapse_ws [] = []"
| "collapse_ws (c # cs) =
     (if is_ws c then CHR '' '' # collapse_ws (dropWhile is_ws cs)
      else c # collapse_ws cs)"
  by pat_completeness auto
termination
  by (relation "measure length") (auto simp: length_dropWhile_le less_Suc_eq_le)

section \<open>Data model\<close>

record AudioFrame =
  timestamp :: real
  rms :: real
  pitch :: real
  isSilent :: bool

record PitchRange =
  pr_min :: real
  pr_max :: real

record AudioAnalysisResult =
  frames :: "AudioFrame list"
  pitchRange :: PitchRange
  averagePitch :: real
  totalDuration :: real
  silenceRatio :: real

datatype SpeakingRate = Slow | Normal | Fast

datatype IntonationType = Rising | Falling | Level

record IntonationEvent =
  ie_timestamp :: real
  ie_type :: IntonationType
  magnitude :: real

record StressEvent =
  se_timestamp :: real
  intensity :: real

record Pause =
  p_start :: real
  p_end :: real
  duration :: real

record ProsodyMetrics =
  pitchVariation :: real
  stressEventCount :: nat
  averagePauseDuration :: real
  pauseCount :: nat
  longPauseCount :: nat
  speakingRate :: SpeakingRate
  intonationPatterns :: "IntonationEvent list"
  rhythmConsistency :: real

definition createEmptyResult :: AudioAnalysisResult where
  \<comment> \<open>Modelled from the spec: \<open>AudioFeatureExtractor.createEmptyResult\<close> of
      src/lib/audioFeatureExtractor.ts, which is not among the sources; section 4.1 gives
      its value.\<close>
  "createEmptyResult =
     \<lparr>frames = [], pitchRange = \<lparr>pr_min = 0, pr_max = 0\<rparr>, averagePitch = 0,
      totalDuration = 0, silenceRatio = 0\<rparr>"

section \<open>Prosody analyzer (src/lib/prosodyAnalyzer.ts)\<close>

definition PAUSE_THRESHOLD_MS :: real where
  "PAUSE_THRESHOLD_MS = 500"

definition LONG_PAUSE_THRESHOLD_MS :: real where
  "LONG_PAUSE_THRESHOLD_MS = 1500"

definition createEmptyProsodyMetrics :: ProsodyMetrics where
  "createEmptyProsodyMetrics =
     \<lparr>pitchVariation = 0, stressEventCount = 0, averagePauseDuration = 0,
      pauseCount = 0, longPauseCount = 0, speakingRate = Normal,
      intonationPatterns = [], rhythmConsistency = 50\<rparr>"

definition pitchVariation_of :: "AudioAnalysisResult \<Rightarrow> real" where
  "pitchVariation_of audioResult =
     (let pitchDiff = pr_max (pitchRange audioResult) - pr_min (pitchRange audioResult)
      in min 100 (if averagePitch audioResult > 0
                  then (pitchDiff / averagePitch audioResult) * 100 else 0))"

text \<open>
  The pause loop: \<open>pauseStart\<close> is the timestamp of the first frame of the silent run
  being scanned (\<open>None\<close> for \<open>null\<close>), \<open>pauses\<close> the pauses pushed so far.
\<close>

fun pause_loop :: "AudioFrame list \<Rightarrow> real option \<Rightarrow> Pause list \<Rightarrow> real option \<times> Pause list" where
  "pause_loop [] pauseStart pauses = (pauseStart, pauses)"
| "pause_loop (f # fs) pauseStart pauses =
     (if isSilent f then
        (case pauseStart of
           None \<Rightarrow> pause_loop fs (Some (timestamp f)) pauses
         | Some s \<Rightarrow> pause_loop fs (Some s) pauses)
      else
        (case pauseStart of
           Some s \<Rightarrow>
             pause_loop fs None
               (if timestamp f - s \<ge> PAUSE_THRESHOLD_MS
                then pauses @ [\<lparr>p_start = s, p_end = timestamp f, duration = timestamp f - s\<rparr>]
                else pauses)
         | None \<Rightarrow> pause_loop fs None pauses))"

definition detectPauses :: "AudioFrame list \<Rightarrow> Pause list" where
  \<comment> \<open>The loop, then the trailing pause, measured up to the last frame's timestamp.\<close>
  "detectPauses fs =
     (case pause_loop fs None [] of
        (Some s, pauses) \<Rightarrow>
          (if length fs > 0 \<and> timestamp (last fs) - s \<ge> PAUSE_THRESHOLD_MS
           then pauses @ [\<lparr>p_start = s, p_end = timestamp (last fs),
                            duration = timestamp (last fs) - s\<rparr>]
           else pauses)
      | (None, pauses) \<Rightarrow> pauses)"

definition isLongPause :: "Pause \<Rightarrow> bool" where
  "isLongPause p = (duration p \<ge> LONG_PAUSE_THRESHOLD_MS)"

definition averagePauseDuration_of :: "Pause list \<Rightarrow> real" where
  "averagePauseDuration_of pauses =
     (if length pauses > 0
      then foldl (\<lambda>sum p. sum + duration p) 0 pauses / real (length pauses) else 0)"

definition avgRms_of :: "AudioFrame list \<Rightarrow> real" where
  "avgRms_of fs = foldl (\<lambda>sum f. sum + rms f) 0 fs / real (length fs)"

definition isStress :: "AudioFrame list \<Rightarrow> real \<Rightarrow> nat \<Rightarrow> bool" where
  "isStress fs avgRms i =
     (\<not> isSilent (fs ! i) \<and> rms (fs ! i) > rms (fs ! (i - 1)) \<and>
      rms (fs ! i) > rms (fs ! (i + 1)) \<and> rms (fs ! i) > avgRms * 1.5)"

definition detectStressEvents :: "AudioFrame list \<Rightarrow> StressEvent list" where
  \<comment> \<open>\<open>for (i = 1; i < frames.length - 1; i++)\<close>; the list is not empty here. With
      \<open>avgRms = 0\<close> the quotient of the source is plus infinity and the minimum 100.\<close>
  "detectStressEvents fs =
     (let avgRms = avgRms_of fs in
      map (\<lambda>i. \<lparr>se_timestamp = timestamp (fs ! i),
                intensity = (if avgRms = 0 then 100
                             else min 100 ((rms (fs ! i) / avgRms) * 50))\<rparr>)
          (filter (isStress fs avgRms) [1 ..< length fs - 1]))"

definition windowSize :: nat where
  "windowSize = 5"

definition slice :: "'a list \<Rightarrow> nat \<Rightarrow> nat \<Rightarrow> 'a list" where
  \<comment> \<open>\<open>Array.prototype.slice(b, e)\<close> for \<open>0 \<le> b \<le> e\<close>\<close>
  "slice xs b e = take (e - b) (drop b xs)"

definition intonation_at :: "AudioFrame list \<Rightarrow> nat \<Rightarrow> IntonationEvent option" where
  \<comment> \<open>The body of the intonation loop at index \<open>i\<close>; \<open>None\<close> is its \<open>continue\<close>.\<close>
  "intonation_at fs i =
     (let window = filter (\<lambda>f. \<not> isSilent f) (slice fs (i - windowSize) i) in
      if length window < 3 then None
      else
        (let startPitch = pitch (hd window);
             endPitch = pitch (last window);
             diff = endPitch - startPitch;
             relativeDiff = (if startPitch > 0 then (diff / startPitch) * 100 else 0)
         in Some \<lparr>ie_timestamp = timestamp (fs ! i),
                  ie_type = (if relativeDiff > 10 then Rising
                             else if relativeDiff < - 10 then Falling else Level),
                  magnitude = \<bar>relativeDiff\<bar>\<rparr>))"

function intonation_loop :: "AudioFrame list \<Rightarrow> nat \<Rightarrow> IntonationEvent list \<Rightarrow> IntonationEvent list" where
  "intonation_loop fs i acc =
     (if i < length fs
      then intonation_loop fs (i + windowSize)
             (case intonation_at fs i of None \<Rightarrow> acc | Some e \<Rightarrow> acc @ [e])
      else acc)"
  by pat_completeness auto
termination
  by (relation "measure (\<lambda>(fs, i, acc). length fs - i)") (auto simp: windowSize_def)

definition detectIntonation :: "AudioFrame list \<Rightarrow> IntonationEvent list" where
  "detectIntonation fs = intonation_loop fs windowSize []"

fun segment_loop :: "AudioFrame list \<Rightarrow> real option \<Rightarrow> real list \<Rightarrow> real option \<times> real list" where
  "segment_loop [] segmentStart segments = (segmentStart, segments)"
| "segment_loop (f # fs) segmentStart segments =
     (if \<not> isSilent f then
        (case segmentStart of
           None \<Rightarrow> segment_loop fs (Some (timestamp f)) segments
         | Some s \<Rightarrow> segment_loop fs (Some s) segments)
      else
        (case segmentStart of
           Some s \<Rightarrow> segment_loop fs None (segments @ [timestamp f - s])
         | None \<Rightarrow> segment_loop fs None segments))"

definition speechSegments :: "AudioFrame list \<Rightarrow> real list" where
  "speechSegments fs =
     (case segment_loop fs None [] of
        (Some s, segments) \<Rightarrow>
          (if length fs > 0 then segments @ [timestamp (last fs) - s] else segments)
      | (None, segments) \<Rightarrow> segments)"

definition rhythmConsistency_of :: "real list \<Rightarrow> real" where
  "rhythmConsistency_of segments =
     (if length segments > 1 then
        (let avgSegment = foldl (+) 0 segments / real (length segments);
             variance = foldl (\<lambda>sum s. sum + (s - avgSegment)\<^sup>2) 0 segments
                          / real (length segments);
             stdDev = sqrt variance;
             cv = (if avgSegment > 0 then stdDev / avgSegment else 0)
         in max 0 (min 100 (100 - cv * 100)))
      else 50)"

definition speakingRate_of :: "AudioFrame list \<Rightarrow> real \<Rightarrow> SpeakingRate" where
  "speakingRate_of fs totalMs =
     (let nonSilentDuration = real (length (filter (\<lambda>f. \<not> isSilent f) fs)) * 100;
          speakingRatio = (if totalMs > 0 then nonSilentDuration / totalMs else 0)
      in if speakingRatio < 0.5 then Slow
         else if speakingRatio > 0.8 then Fast else Normal)"

definition analyzeProsody :: "AudioAnalysisResult \<Rightarrow> ProsodyMetrics" where
  "analyzeProsody audioResult =
     (if length (frames audioResult) = 0 then createEmptyProsodyMetrics
      else
        (let pauses = detectPauses (frames audioResult) in
         \<lparr>pitchVariation = pitchVariation_of audioResult,
          stressEventCount = length (detectStressEvents (frames audioResult)),
          averagePauseDuration = averagePauseDuration_of pauses,
          pauseCount = length pauses,
          longPauseCount = length (filter isLongPause pauses),
          speakingRate = speakingRate_of (frames audioResult) (totalDuration audioResult),
          intonationPatterns = detectIntonation (frames audioResult),
          rhythmConsistency = rhythmConsistency_of (speechSegments (frames audioResult))\<rparr>))"

section \<open>Describing recordings\<close>

definition pushed_pause :: "real \<Rightarrow> real \<Rightarrow> Pause list" where
  \<comment> \<open>What either branch of the pause detection pushes for a silence it measures from
      \<open>s\<close> to \<open>e\<close>: one pause, or nothing below the threshold.\<close>
  "pushed_pause s e =
     (if e - s \<ge> PAUSE_THRESHOLD_MS then [\<lparr>p_start = s, p_end = e, duration = e - s\<rparr>]
      else [])"

text \<open>A frame sequence sampled at the fixed cadence: frame \<open>i\<close> is taken at \<open>100 * i\<close> ms.\<close>

definition at_cadence :: "AudioFrame list \<Rightarrow> bool" where
  "at_cadence fs = (\<forall>i < length fs. timestamp (fs ! i) = 100 * real i)"

text \<open>Frames for concrete recordings: a voiced frame with a pitch, and a silent one.\<close>

definition voiced :: "real \<Rightarrow> real \<Rightarrow> AudioFrame" where
  "voiced t p = \<lparr>timestamp = t, rms = 0.1, pitch = p, isSilent = False\<rparr>"

definition silent :: "real \<Rightarrow> AudioFrame" where
  "silent t = \<lparr>timestamp = t, rms = 0, pitch = 0, isSilent = True\<rparr>"

definition rising_recording :: AudioAnalysisResult where
  \<comment> \<open>Six voiced frames whose pitch rises from 100 Hz to 210 Hz within the first window.\<close>
  "rising_recording =
     \<lparr>frames = [voiced 0 100, voiced 100 120, voiced 200 150, voiced 300 180, voiced 400 210,
                voiced 500 210],
      pitchRange = \<lparr>pr_min = 100, pr_max = 210\<rparr>, averagePitch = 485 / 3,
      totalDuration = 600, silenceRatio = 0\<rparr>"

definition short_recording :: AudioAnalysisResult where
  \<comment> \<open>Five voiced frames: one full window and no frame after it.\<close>
  "short_recording =
     \<lparr>frames = [voiced 0 100, voiced 100 120, voiced 200 150, voiced 300 180, voiced 400 210],
      pitchRange = \<lparr>pr_min = 100, pr_max = 210\<rparr>, averagePitch = 152,
      totalDuration = 500, silenceRatio = 0\<rparr>"

section \<open>Fluency calculator (src/lib/fluencyCalculator.ts)\<close>

record WordConfidence =
  \<comment> \<open>The type is declared in src/lib/wordConfidenceTracker.ts, which is not among the
      sources; the fields are those the callers read (section 3 of the specification).\<close>
  word :: string
  confidence :: real
  isFiller :: bool
  isRepeat :: bool

record FluencyMetrics =
  wordsPerMinute :: int
  fm_pauseCount :: nat
  fm_longPauseCount :: nat
  fillerCount :: nat
  fillerRatio :: real
  repetitionCount :: nat
  hesitationScore :: real
  speechToSilenceRatio :: real
  overallFluencyScore :: real

text \<open>
  \<open>calculateFluency\<close>, block by block. The two divisions by a variable
  (\<open>totalWords / durationMinutes\<close> and \<open>fillerCount / totalWords\<close>) are written with
  \<open>js_div\<close>, so that a division by zero would show as \<open>None\<close>: the result is \<open>Some\<close>
  metrics exactly when every field is a finite number. The divisions by the constants
  60000 and 2 cannot fail. The quotient that \<open>Math.round\<close> turns into \<open>wordsPerMinute\<close>
  is rounded to a double.
\<close>

definition wordsPerMinute_of :: "nat \<Rightarrow> real \<Rightarrow> int option" where
  \<comment> \<open>\<open>Math.round(totalWords / durationMinutes)\<close> with both quotients in doubles\<close>
  "wordsPerMinute_of totalWords durationMs =
     (let durationMinutes = ddiv durationMs 60000
      in if durationMinutes > 0
         then map_option (\<lambda>q. js_round (fl q)) (js_div (real totalWords) durationMinutes)
         else Some 0)"

definition fillerRatio_of :: "nat \<Rightarrow> nat \<Rightarrow> real option" where
  "fillerRatio_of fillers totalWords =
     (if totalWords > 0 then js_div (real fillers) (real totalWords) else Some 0)"

definition hesitationScore_of :: "nat \<Rightarrow> nat \<Rightarrow> nat \<Rightarrow> nat \<Rightarrow> real" where
  "hesitationScore_of pauses fillers repetitions longPauses =
     max 0 (min 100 (100 - real pauses * 5 - real fillers * 3
                         - real repetitions * 4 - real longPauses * 8))"

definition wpmFactor :: "int \<Rightarrow> real" where
  \<comment> \<open>The score after the WPM factor.\<close>
  "wpmFactor wpm =
     (if real_of_int wpm < 100 then 100 - (100 - real_of_int wpm) * 0.3
      else if real_of_int wpm > 200 then 100 - (real_of_int wpm - 200) * 0.2
      else 100)"

definition silencePenalty :: "real \<Rightarrow> real" where
  "silencePenalty speechToSilence =
     (if speechToSilence < 0.4 then (0.4 - speechToSilence) * 50 else 0)"

definition overallFluencyScore_of :: "int \<Rightarrow> real \<Rightarrow> nat \<Rightarrow> real \<Rightarrow> real \<Rightarrow> real" where
  "overallFluencyScore_of wpm ratio longPauses speechToSilence hesitation =
     (let score1 = wpmFactor wpm;
          score2 = score1 - ratio * 30;
          score3 = score2 - real longPauses * 5;
          score4 = score3 - silencePenalty speechToSilence;
          score5 = (score4 + hesitation) / 2
      in max 0 (min 100 score5))"

definition calculateFluency ::
    "WordConfidence list \<Rightarrow> AudioAnalysisResult \<Rightarrow> ProsodyMetrics \<Rightarrow> real \<Rightarrow> FluencyMetrics option" where
  "calculateFluency words audioResult prosody durationMs =
     (case wordsPerMinute_of (length words) durationMs of
        None \<Rightarrow> None
      | Some wpm \<Rightarrow>
         (case fillerRatio_of (length (filter isFiller words)) (length words) of
            None \<Rightarrow> None
          | Some ratio \<Rightarrow>
              Some \<lparr>wordsPerMinute = wpm,
                    fm_pauseCount = pauseCount prosody,
                    fm_longPauseCount = longPauseCount prosody,
                    fillerCount = length (filter isFiller words),
                    fillerRatio = ratio,
                    repetitionCount = length (filter isRepeat words),
                    hesitationScore =
                      hesitationScore_of (pauseCount prosody) (length (filter isFiller words))
                        (length (filter isRepeat words)) (longPauseCount prosody),
                    speechToSilenceRatio = 1 - silenceRatio audioResult,
                    overallFluencyScore =
                      overallFluencyScore_of wpm ratio (longPauseCount prosody)
                        (1 - silenceRatio audioResult)
                        (hesitationScore_of (pauseCount prosody)
                           (length (filter isFiller words))
                           (length (filter isRepeat words)) (longPauseCount prosody))\<rparr>))"

definition createEmptyFluencyMetrics :: FluencyMetrics where
  "createEmptyFluencyMetrics =
     \<lparr>wordsPerMinute = 0, fm_pauseCount = 0, fm_longPauseCount = 0, fillerCount = 0,
      fillerRatio = 0, repetitionCount = 0, hesitationScore = 50, speechToSilenceRatio = 0,
      overallFluencyScore = 0\<rparr>"

text \<open>
  Inputs for concrete runs: the aggregates and prosody metrics of a hesitant minute with
  twelve long pauses and of a fluent second (\<open>calculateFluency\<close> reads \<open>silenceRatio\<close>,
  \<open>pauseCount\<close> and \<open>longPauseCount\<close> only), and words with and without the filler flag.
\<close>

definition hesitant_prosody :: ProsodyMetrics where
  "hesitant_prosody =
     \<lparr>pitchVariation = 20, stressEventCount = 0, averagePauseDuration = 2000,
      pauseCount = 12, longPauseCount = 12, speakingRate = Slow,
      intonationPatterns = [], rhythmConsistency = 50\<rparr>"

definition hesitant_audio :: AudioAnalysisResult where
  "hesitant_audio =
     \<lparr>frames = [], pitchRange = \<lparr>pr_min = 100, pr_max = 130\<rparr>, averagePitch = 110,
      totalDuration = 60000, silenceRatio = 0.9\<rparr>"

definition plain_word :: "string \<Rightarrow> WordConfidence" where
  "plain_word w = \<lparr>word = w, confidence = 90, isFiller = False, isRepeat = False\<rparr>"

definition filler_word :: "string \<Rightarrow> WordConfidence" where
  "filler_word w = \<lparr>word = w, confidence = 90, isFiller = True, isRepeat = False\<rparr>"

definition fluent_prosody :: ProsodyMetrics where
  "fluent_prosody =
     \<lparr>pitchVariation = 40, stressEventCount = 1, averagePauseDuration = 600,
      pauseCount = 1, longPauseCount = 0, speakingRate = Normal,
      intonationPatterns = [], rhythmConsistency = 80\<rparr>"

definition fluent_audio :: AudioAnalysisResult where
  "fluent_audio =
     \<lparr>frames = [], pitchRange = \<lparr>pr_min = 100, pr_max = 160\<rparr>, averagePitch = 150,
      totalDuration = 1000, silenceRatio = 0.2\<rparr>"

section \<open>Session orchestrator (the hook \<open>useAdvancedSpeechAnalysis\<close>)\<close>

type_synonym Error = string

record Options =
  language :: "string option"
  has_onInterimResult :: bool
  has_onError :: bool

record SpeechRecognition =
  continuous :: bool
  interimResults :: bool
  lang :: string

record AudioFeatureExtractor =
  \<comment> \<open>Modelled from the spec: the class of src/lib/audioFeatureExtractor.ts, which is not
      among the sources. Section 4.1: \<open>stop()\<close> finalizes and returns an
      \<open>AudioAnalysisResult\<close>; the object is modelled by that result.\<close>
  extractor_stop :: AudioAnalysisResult

record WordConfidenceTracker =
  \<comment> \<open>Modelled from the spec: the class of src/lib/wordConfidenceTracker.ts, which is not
      among the sources. Section 4.3: \<open>getWordConfidences(finalTranscript)\<close> returns the
      ordered \<open>WordConfidence\<close> sequence; the object is modelled by that method.\<close>
  getWordConfidences :: "string \<Rightarrow> WordConfidence list"

record HookState =
  isAnalyzing :: bool
  interimTranscript :: string
  error :: "Error option"
  isSupported :: bool
  audioExtractorRef :: "AudioFeatureExtractor option"
  wordTrackerRef :: "WordConfidenceTracker option"
  recognitionRef :: "SpeechRecognition option"
  finalTranscriptRef :: string
  startTimeRef :: real
  isAnalyzingRef :: bool

record SpeechAnalysisResult =
  rawTranscript :: string
  cleanedTranscript :: string
  wordConfidences :: "WordConfidence list"
  fluencyMetrics :: FluencyMetrics
  prosodyMetrics :: ProsodyMetrics
  audioAnalysis :: AudioAnalysisResult
  durationMs :: real
  overallClarityScore :: int

datatype Effect =
    CallOnError Error
  | CallOnInterimResult string
  | RecognitionStart

definition recognition_onerror :: "Options \<Rightarrow> string \<Rightarrow> HookState \<Rightarrow> HookState \<times> Effect list" where
  \<comment> \<open>\<open>recognition.onerror\<close> with \<open>event.error = code\<close>: the new hook state and the
      callbacks invoked. \<open>options.onError?.(err)\<close> calls the callback when there is one.\<close>
  "recognition_onerror options code st =
     (if code \<noteq> ''no-speech'' \<and> code \<noteq> ''aborted'' then
        (let err = ''Speech recognition error: '' @ code
         in (st\<lparr>error := Some err\<rparr>,
             if has_onError options then [CallOnError err] else []))
      else (st, []))"

definition recognition_onend :: "HookState \<Rightarrow> HookState \<times> Effect list" where
  \<comment> \<open>\<open>recognition.onend\<close>: restart while still analyzing.\<close>
  "recognition_onend st =
     (if isAnalyzingRef st \<and> recognitionRef st \<noteq> None then (st, [RecognitionStart])
      else (st, []))"

definition rawTranscript_of :: "HookState \<Rightarrow> string" where
  \<comment> \<open>\<open>finalTranscriptRef.current.trim() || interimTranscript.trim()\<close>\<close>
  "rawTranscript_of st =
     (if trim (finalTranscriptRef st) \<noteq> [] then trim (finalTranscriptRef st)
      else trim (interimTranscript st))"

definition avgConfidence_of :: "WordConfidence list \<Rightarrow> real" where
  \<comment> \<open>The running sum and the quotient are doubles.\<close>
  "avgConfidence_of ws =
     (if length ws > 0
      then ddiv (foldl (\<lambda>sum w. dadd sum (confidence w)) 0 ws) (real (length ws)) else 0)"

definition cleanedTranscript_of :: "WordConfidence list \<Rightarrow> string" where
  "cleanedTranscript_of ws =
     trim (collapse_ws (join '' '' (map word (filter (\<lambda>w. \<not> isFiller w \<and> \<not> isRepeat w) ws))))"

text \<open>
  \<open>stop()\<close>. Its parameters are what the sources do not contain: the static
  \<open>WordConfidenceTracker.createEmptyConfidences\<close> and the value of \<open>Date.now()\<close>. The
  result is the new hook state and the returned value, \<open>None\<close> for \<open>null\<close>. The literals
  0.4, 0.3 and 0.15 are the doubles nearest to them, and the weighted sum is evaluated in
  doubles, product by product and from left to right.
  \<open>calculateFluency\<close> never yields \<open>None\<close> (lemma \<open>calculateFluency_total\<close>), so the
  only \<open>null\<close> is that of the empty transcript (lemma \<open>stop_null_iff\<close>).
\<close>

definition stop ::
    "(string \<Rightarrow> WordConfidence list) \<Rightarrow> real \<Rightarrow> HookState \<Rightarrow> HookState \<times> SpeechAnalysisResult option" where
  "stop createEmptyConfidences now st =
     (let st' = st\<lparr>isAnalyzing := False, isAnalyzingRef := False, recognitionRef := None\<rparr>;
          audio = (case audioExtractorRef st of
                     Some extractor \<Rightarrow> extractor_stop extractor
                   | None \<Rightarrow> createEmptyResult);
          prosody = analyzeProsody audio;
          raw = rawTranscript_of st
      in
      if raw = [] then (st', None)
      else
        (let ws = (case wordTrackerRef st of
                     Some tracker \<Rightarrow> getWordConfidences tracker raw
                   | None \<Rightarrow> createEmptyConfidences raw);
             elapsed = now - startTimeRef st
         in
         case calculateFluency ws audio prosody elapsed of
           None \<Rightarrow> (st', None)
         | Some fluency \<Rightarrow>
             (st', Some \<lparr>rawTranscript = raw,
                         cleanedTranscript = cleanedTranscript_of ws,
                         wordConfidences = ws,
                         fluencyMetrics = fluency,
                         prosodyMetrics = prosody,
                         audioAnalysis = audio,
                         durationMs = elapsed,
                         overallClarityScore =
                           js_round
                             (dadd (dadd (dadd (dmul (avgConfidence_of ws) (fl 0.4))
                                               (dmul (overallFluencyScore fluency) (fl 0.3)))
                                         (dmul (pitchVariation prosody) (fl 0.15)))
                                   (dmul (rhythmConsistency prosody) (fl 0.15)))\<rparr>)))"





definition capturing :: "string \<Rightarrow> string \<Rightarrow> WordConfidence list \<Rightarrow> HookState" where
  \<comment> \<open>A capturing session, started at time 1000, that has recorded \<open>rising_recording\<close>
      and whose tracker answers \<open>ws\<close>.\<close>
  "capturing final interim ws =
     \<lparr>isAnalyzing = True, interimTranscript = interim, error = None, isSupported = True,
      audioExtractorRef = Some \<lparr>extractor_stop = rising_recording\<rparr>,
      wordTrackerRef = Some \<lparr>getWordConfidences = (\<lambda>transcript. ws)\<rparr>,
      recognitionRef = Some \<lparr>continuous = True, interimResults = True, lang = ''en-GB''\<rparr>,
      finalTranscriptRef = final, startTimeRef = 1000, isAnalyzingRef = True\<rparr>"




section \<open>Properties of the prosody analyzer\<close>

subsection \<open>The pause loop\<close>

lemma pause_loop_acc:
  "pause_loop fs ps acc = (fst (pause_loop fs ps []), acc @ snd (pause_loop fs ps []))"
proof (induction fs arbitrary: ps acc)
  case Nil
  show ?case by simp
next
  case (Cons f fs)
  show ?case
  proof (cases "isSilent f")
    case True
    then show ?thesis
      using Cons.IH [of "Some (timestamp f)" acc] Cons.IH [of ps acc]
      by (cases ps) simp_all
  next
    case False
    show ?thesis
    proof (cases ps)
      case None
      with False show ?thesis using Cons.IH [of None acc] by simp
    next
      case (Some s)
      let ?p = "\<lparr>p_start = s, p_end = timestamp f, duration = timestamp f - s\<rparr>"
      show ?thesis
        using False Some Cons.IH [of None "acc @ [?p]"] Cons.IH [of None "[?p]"]
          Cons.IH [of None acc]
        by simp
    qed
  qed
qed

lemma pause_loop_append:
  "pause_loop (xs @ ys) ps acc =
     pause_loop ys (fst (pause_loop xs ps acc)) (snd (pause_loop xs ps acc))"
  by (induction xs arbitrary: ps acc) (simp_all split: option.splits)

lemma pause_loop_silent:
  "\<forall>f \<in> set run. isSilent f \<Longrightarrow>
   pause_loop run ps acc =
     ((case ps of None \<Rightarrow> (if run = [] then None else Some (timestamp (hd run))) | Some s \<Rightarrow> Some s), acc)"
  by (induction run arbitrary: ps acc) (simp_all split: option.splits)

lemma pause_loop_last_voiced:
  "xs \<noteq> [] \<Longrightarrow> \<not> isSilent (last xs) \<Longrightarrow> fst (pause_loop xs ps acc) = None"
proof (induction xs arbitrary: ps acc)
  case Nil
  then show ?case by simp
next
  case (Cons f fs)
  show ?case
  proof (cases "fs = []")
    case True
    with Cons.prems show ?thesis by (simp split: option.splits)
  next
    case False
    with Cons show ?thesis by (simp split: option.splits)
  qed
qed

lemma pause_loop_voiced:
  "\<forall>f \<in> set xs. \<not> isSilent f \<Longrightarrow> pause_loop xs None acc = (None, acc)"
  by (induction xs arbitrary: acc) simp_all

lemma pause_loop_prefix:
  assumes "pre = [] \<or> \<not> isSilent (last pre)"
  shows "pause_loop pre None [] = (None, detectPauses pre)"
proof (cases "pre = []")
  case True
  then show ?thesis by (simp add: detectPauses_def)
next
  case False
  with assms have "fst (pause_loop pre None []) = None"
    by (simp add: pause_loop_last_voiced)
  then show ?thesis
    by (cases "pause_loop pre None []") (simp add: detectPauses_def)
qed

lemma pause_loop_upto_run:
  assumes "run \<noteq> []" and "\<forall>f \<in> set run. isSilent f"
    and "pre = [] \<or> \<not> isSilent (last pre)"
  shows "pause_loop (pre @ run) None [] = (Some (timestamp (hd run)), detectPauses pre)"
  using assms(1,2)
  by (simp add: pause_loop_append pause_loop_prefix [OF assms(3)] pause_loop_silent)

lemma detectPauses_trailing_run:
  assumes "run \<noteq> []" and "\<forall>f \<in> set run. isSilent f"
    and "pre = [] \<or> \<not> isSilent (last pre)"
  shows "detectPauses (pre @ run) =
     detectPauses pre @ pushed_pause (timestamp (hd run)) (timestamp (last run))"
  using assms(1) pause_loop_upto_run [OF assms]
  by (simp add: detectPauses_def [of "pre @ run"] pushed_pause_def)

lemma detectPauses_interior_run:
  assumes "run \<noteq> []" and "\<forall>f \<in> set run. isSilent f"
    and "pre = [] \<or> \<not> isSilent (last pre)"
    and g: "\<not> isSilent g"
  shows "detectPauses (pre @ run @ g # post) =
     detectPauses pre @ pushed_pause (timestamp (hd run)) (timestamp g)
       @ detectPauses (g # post)"
proof -
  let ?p = "pushed_pause (timestamp (hd run)) (timestamp g)"
  obtain ps tl where X: "pause_loop post None [] = (ps, tl)"
    by (cases "pause_loop post None []")
  have whole: "pause_loop (pre @ run @ g # post) None [] = (ps, detectPauses pre @ ?p @ tl)"
  proof -
    have "pause_loop (pre @ run @ g # post) None [] =
        pause_loop (g # post) (Some (timestamp (hd run))) (detectPauses pre)"
      using pause_loop_append [of "pre @ run" "g # post" None "[]"]
        pause_loop_upto_run [OF assms(1-3)] by simp
    also have "\<dots> = pause_loop post None (detectPauses pre @ ?p)"
      using g by (simp add: pushed_pause_def)
    also have "\<dots> = (ps, detectPauses pre @ ?p @ tl)"
      using pause_loop_acc [of post None "detectPauses pre @ ?p"] X by simp
    finally show ?thesis .
  qed
  have alone: "pause_loop (g # post) None [] = (ps, tl)"
    using g X by simp
  have lst: "last (pre @ run @ g # post) = last (g # post)"
    by simp
  show ?thesis
    unfolding detectPauses_def [of "pre @ run @ g # post"] detectPauses_def [of "g # post"]
      whole alone lst
    by (cases ps) simp_all
qed

lemma detectPauses_voiced:
  "\<forall>f \<in> set xs. \<not> isSilent f \<Longrightarrow> detectPauses xs = []"
  by (simp add: detectPauses_def pause_loop_voiced)

lemma pauseCount_analyzeProsody:
  "pauseCount (analyzeProsody a) = length (detectPauses (frames a))"
  by (simp add: analyzeProsody_def createEmptyProsodyMetrics_def detectPauses_def Let_def)

lemma longPauseCount_analyzeProsody:
  "longPauseCount (analyzeProsody a) = length (filter isLongPause (detectPauses (frames a)))"
  by (simp add: analyzeProsody_def createEmptyProsodyMetrics_def detectPauses_def Let_def)

lemma intonationPatterns_analyzeProsody:
  "intonationPatterns (analyzeProsody a) = (if frames a = [] then [] else detectIntonation (frames a))"
  by (simp add: analyzeProsody_def createEmptyProsodyMetrics_def Let_def)

lemma length_pushed_pause:
  "length (pushed_pause s e) = (if e - s \<ge> 500 then 1 else 0)"
  by (simp add: pushed_pause_def PAUSE_THRESHOLD_MS_def)

lemma length_long_pushed_pause:
  "length (filter isLongPause (pushed_pause s e)) = (if e - s \<ge> 1500 then 1 else 0)"
  by (simp add: pushed_pause_def PAUSE_THRESHOLD_MS_def isLongPause_def
      LONG_PAUSE_THRESHOLD_MS_def)

text \<open>
  At the 100 ms cadence a run of \<open>n\<close> silent frames is \<open>100 * n\<close> ms of silence. The
  loop measures exactly that for a run that a frame follows, and the trailing branch
  measures \<open>100 * n - 100\<close> ms for a run that ends the recording. So a single run among
  voiced frames is a pause from 5 frames on and a long pause from 15 frames on in the
  first case, from 6 and from 16 frames on in the second; 16 silent frames are a pause
  and a long pause in both.
\<close>

lemma timestamps_at_cadence:
  assumes "at_cadence (pre @ run @ post)" and "run \<noteq> []"
  shows "timestamp (hd run) = 100 * real (length pre)"
    and "timestamp (last run) = 100 * real (length pre) + 100 * real (length run) - 100"
    and "post \<noteq> [] \<Longrightarrow>
         timestamp (hd post) = 100 * real (length pre) + 100 * real (length run)"
proof -
  let ?fs = "pre @ run @ post"
  have ts: "\<And>i. i < length ?fs \<Longrightarrow> timestamp (?fs ! i) = 100 * real i"
    using assms(1) by (simp add: at_cadence_def)
  from assms(2) obtain n where n: "length run = Suc n"
    by (cases run) simp_all
  have "?fs ! (length pre + 0) = run ! 0"
    unfolding nth_append_length_plus using n by (simp add: nth_append)
  then show "timestamp (hd run) = 100 * real (length pre)"
    using ts [of "length pre + 0"] assms(2) n by (simp add: hd_conv_nth)
  have "?fs ! (length pre + n) = run ! n"
    unfolding nth_append_length_plus using n by (simp add: nth_append)
  moreover have "last run = run ! n"
    using assms(2) n by (simp add: last_conv_nth)
  ultimately show "timestamp (last run)
      = 100 * real (length pre) + 100 * real (length run) - 100"
    using ts [of "length pre + n"] n by (simp add: algebra_simps)
  assume post: "post \<noteq> []"
  have "?fs ! (length pre + length run) = post ! 0"
    using nth_append_length_plus [of "pre @ run" post 0] by simp
  then show "timestamp (hd post) = 100 * real (length pre) + 100 * real (length run)"
    using ts [of "length pre + length run"] post by (simp add: hd_conv_nth algebra_simps)
qed

lemma interior_run_at_cadence:
  assumes "at_cadence (pre @ run @ g # post)" and "run \<noteq> []"
    and "\<forall>f \<in> set run. isSilent f"
    and "\<forall>f \<in> set pre. \<not> isSilent f" and "\<forall>f \<in> set (g # post). \<not> isSilent f"
  shows "pauseCount (analyzeProsody (a\<lparr>frames := pre @ run @ g # post\<rparr>))
           = (if 500 \<le> 100 * real (length run) then 1 else 0)"
    and "longPauseCount (analyzeProsody (a\<lparr>frames := pre @ run @ g # post\<rparr>))
           = (if 1500 \<le> 100 * real (length run) then 1 else 0)"
proof -
  have pre: "pre = [] \<or> \<not> isSilent (last pre)"
    using assms(4) by (cases "pre = []") simp_all
  have g: "\<not> isSilent g" using assms(5) by simp
  have d: "timestamp g - timestamp (hd run) = 100 * real (length run)"
    using timestamps_at_cadence(1,3) [OF assms(1,2)] by simp
  have eq: "detectPauses (pre @ run @ g # post)
      = pushed_pause (timestamp (hd run)) (timestamp g)"
    using detectPauses_interior_run [OF assms(2,3) pre g, of post] assms(4,5)
    by (simp add: detectPauses_voiced)
  show "pauseCount (analyzeProsody (a\<lparr>frames := pre @ run @ g # post\<rparr>))
           = (if 500 \<le> 100 * real (length run) then 1 else 0)"
    by (simp add: pauseCount_analyzeProsody eq length_pushed_pause d)
  show "longPauseCount (analyzeProsody (a\<lparr>frames := pre @ run @ g # post\<rparr>))
           = (if 1500 \<le> 100 * real (length run) then 1 else 0)"
    by (simp add: longPauseCount_analyzeProsody eq length_long_pushed_pause d)
qed

lemma trailing_run_at_cadence:
  assumes "at_cadence (pre @ run)" and "run \<noteq> []"
    and "\<forall>f \<in> set run. isSilent f" and "\<forall>f \<in> set pre. \<not> isSilent f"
  shows "pauseCount (analyzeProsody (a\<lparr>frames := pre @ run\<rparr>))
           = (if 500 \<le> 100 * real (length run) - 100 then 1 else 0)"
    and "longPauseCount (analyzeProsody (a\<lparr>frames := pre @ run\<rparr>))
           = (if 1500 \<le> 100 * real (length run) - 100 then 1 else 0)"
proof -
  have pre: "pre = [] \<or> \<not> isSilent (last pre)"
    using assms(4) by (cases "pre = []") simp_all
  have d: "timestamp (last run) - timestamp (hd run) = 100 * real (length run) - 100"
    using timestamps_at_cadence(1,2) [of pre run "[]"] assms(1,2) by simp
  have eq: "detectPauses (pre @ run) = pushed_pause (timestamp (hd run)) (timestamp (last run))"
    using detectPauses_trailing_run [OF assms(2,3) pre] assms(4)
    by (simp add: detectPauses_voiced)
  show "pauseCount (analyzeProsody (a\<lparr>frames := pre @ run\<rparr>))
           = (if 500 \<le> 100 * real (length run) - 100 then 1 else 0)"
    by (simp add: pauseCount_analyzeProsody eq length_pushed_pause d)
  show "longPauseCount (analyzeProsody (a\<lparr>frames := pre @ run\<rparr>))
           = (if 1500 \<le> 100 * real (length run) - 100 then 1 else 0)"
    by (simp add: longPauseCount_analyzeProsody eq length_long_pushed_pause d)
qed

lemma sixteen_silent_frames:
  assumes "at_cadence (pre @ run @ post)" and "length run = 16"
    and "\<forall>f \<in> set run. isSilent f"
    and "\<forall>f \<in> set pre. \<not> isSilent f" and "\<forall>f \<in> set post. \<not> isSilent f"
  shows "pauseCount (analyzeProsody (a\<lparr>frames := pre @ run @ post\<rparr>)) = 1
       \<and> longPauseCount (analyzeProsody (a\<lparr>frames := pre @ run @ post\<rparr>)) = 1"
proof (cases post)
  case Nil
  from assms(2) have ne: "run \<noteq> []" by auto
  show ?thesis
    using trailing_run_at_cadence [OF _ ne assms(3,4), of a] assms(1,2) Nil by simp
next
  case (Cons g post')
  from assms(2) have ne: "run \<noteq> []" by auto
  show ?thesis
    using interior_run_at_cadence [OF _ ne assms(3,4), of g post' a] assms(1,2,5) Cons
    by simp
qed

text \<open>
  C8. For every frame sequence the long pauses are among the pauses: the metrics
  returned by \<open>analyzeProsody\<close> satisfy \<open>longPauseCount \<le> pauseCount\<close>.
\<close>

theorem analyzeProsody_longPauseCount_le_pauseCount:
  "longPauseCount (analyzeProsody audioResult) \<le> pauseCount (analyzeProsody audioResult)"
  by (simp add: analyzeProsody_def createEmptyProsodyMetrics_def Let_def)

text \<open>
  C3. A silent run counts as a pause exactly when it lasts at least 500 ms and as a long
  pause exactly when it lasts at least 1500 ms only if a frame follows it. Fifteen silent
  frames at the 100 ms cadence are 1500 ms of silence: followed by a voiced frame they are
  a pause and a long pause, and at the end of a recording they are a pause but no long
  pause, since the trailing branch measures them as 1400 ms.
\<close>

theorem trailing_long_pause_one_frame_short:
  "pauseCount (analyzeProsody
      \<lparr>frames = voiced 0 150 # map silent [100, 200, 300, 400, 500, 600, 700, 800, 900, 1000,
                                           1100, 1200, 1300, 1400, 1500],
       pitchRange = \<lparr>pr_min = 150, pr_max = 150\<rparr>, averagePitch = 150,
       totalDuration = 1600, silenceRatio = 15 / 16\<rparr>) = 1
   \<and> longPauseCount (analyzeProsody
      \<lparr>frames = voiced 0 150 # map silent [100, 200, 300, 400, 500, 600, 700, 800, 900, 1000,
                                           1100, 1200, 1300, 1400, 1500],
       pitchRange = \<lparr>pr_min = 150, pr_max = 150\<rparr>, averagePitch = 150,
       totalDuration = 1600, silenceRatio = 15 / 16\<rparr>) = 0
   \<and> longPauseCount (analyzeProsody
      \<lparr>frames = voiced 0 150 # map silent [100, 200, 300, 400, 500, 600, 700, 800, 900, 1000,
                                           1100, 1200, 1300, 1400, 1500] @ [voiced 1600 150],
       pitchRange = \<lparr>pr_min = 150, pr_max = 150\<rparr>, averagePitch = 150,
       totalDuration = 1700, silenceRatio = 15 / 17\<rparr>) = 1"
  by (simp add: pauseCount_analyzeProsody longPauseCount_analyzeProsody detectPauses_def
      voiced_def silent_def PAUSE_THRESHOLD_MS_def isLongPause_def LONG_PAUSE_THRESHOLD_MS_def)

text \<open>
  C4. A silent run that ends the recording is measured up to the timestamp of its last
  frame, an interior run up to the timestamp of the frame after it. At the 100 ms cadence
  five silent frames at the end of a recording measure 400 ms and are no pause, while the
  same five frames followed by a voiced frame measure 500 ms and are one.
\<close>

theorem trailing_run_one_frame_short:
  "pauseCount (analyzeProsody
      \<lparr>frames = [voiced 0 150, silent 100, silent 200, silent 300, silent 400, silent 500],
       pitchRange = \<lparr>pr_min = 150, pr_max = 150\<rparr>, averagePitch = 150,
       totalDuration = 600, silenceRatio = 5 / 6\<rparr>) = 0
   \<and> pauseCount (analyzeProsody
      \<lparr>frames = [voiced 0 150, silent 100, silent 200, silent 300, silent 400, silent 500,
                 voiced 600 150],
       pitchRange = \<lparr>pr_min = 150, pr_max = 150\<rparr>, averagePitch = 150,
       totalDuration = 700, silenceRatio = 5 / 7\<rparr>) = 1"
  by (simp add: pauseCount_analyzeProsody detectPauses_def voiced_def silent_def
      PAUSE_THRESHOLD_MS_def)

subsection \<open>The intonation loop\<close>

lemma window_steps:
  "i < (n::nat) \<Longrightarrow> (n - (i + 5) + 4) div 5 + 1 = (n - i + 4) div 5"
proof (cases "i + 5 \<le> n")
  case True
  then obtain d where "n = i + 5 + d" using le_Suc_ex by blast
  then show ?thesis by simp
next
  case False
  assume "i < n"
  with False obtain d where "n = i + d" "0 < d" "d < 5"
    by (metis add_less_cancel_left less_imp_add_positive not_le)
  then show ?thesis by simp
qed

lemma intonation_loop_length:
  "length (intonation_loop fs i acc) \<le> length acc + (length fs - i + 4) div 5"
proof (induction fs i acc rule: intonation_loop.induct)
  case (1 fs i acc)
  show ?case
  proof (cases "i < length fs")
    case False
    then show ?thesis by simp
  next
    case True
    let ?acc = "case intonation_at fs i of None \<Rightarrow> acc | Some e \<Rightarrow> acc @ [e]"
    have "length (intonation_loop fs (i + windowSize) ?acc)
        \<le> length ?acc + (length fs - (i + windowSize) + 4) div 5"
      using "1.IH" [OF True] .
    moreover have "length ?acc \<le> length acc + 1"
      by (simp split: option.splits)
    moreover have "(length fs - (i + windowSize) + 4) div 5 + 1 = (length fs - i + 4) div 5"
      using window_steps [OF True] by (simp add: windowSize_def)
    ultimately show ?thesis
      using True by (subst intonation_loop.simps) simp
  qed
qed

lemma intonation_loop_events:
  "e \<in> set (intonation_loop fs i acc) \<Longrightarrow>
   e \<in> set acc \<or> (\<exists>k. i + 5 * k < length fs \<and> intonation_at fs (i + 5 * k) = Some e)"
proof (induction fs i acc rule: intonation_loop.induct)
  case (1 fs i acc)
  show ?case
  proof (cases "i < length fs")
    case False
    with "1.prems" show ?thesis by simp
  next
    case True
    let ?acc = "case intonation_at fs i of None \<Rightarrow> acc | Some e \<Rightarrow> acc @ [e]"
    from "1.prems" True have "e \<in> set (intonation_loop fs (i + windowSize) ?acc)"
      by (subst (asm) intonation_loop.simps) simp
    from "1.IH" [OF True this]
    consider "e \<in> set ?acc"
      | k where "i + windowSize + 5 * k < length fs"
          "intonation_at fs (i + windowSize + 5 * k) = Some e"
      by blast
    then show ?thesis
    proof cases
      case 1
      then have "e \<in> set acc \<or> intonation_at fs i = Some e"
        by (auto split: option.splits)
      with True have "e \<in> set acc
          \<or> (i + 5 * 0 < length fs \<and> intonation_at fs (i + 5 * 0) = Some e)"
        by simp
      then show ?thesis by blast
    next
      case (2 k)
      then have "i + 5 * (Suc k) < length fs" "intonation_at fs (i + 5 * (Suc k)) = Some e"
        by (simp_all add: windowSize_def add.assoc)
      then show ?thesis by blast
    qed
  qed
qed

lemma intonation_at_timestamp:
  "intonation_at fs i = Some e \<Longrightarrow> ie_timestamp e = timestamp (fs ! i)"
  by (auto simp: intonation_at_def Let_def split: if_splits)

lemma intonation_at_magnitude_nonneg:
  "intonation_at fs i = Some e \<Longrightarrow> 0 \<le> magnitude e"
  by (auto simp: intonation_at_def Let_def split: if_splits)

lemma detectIntonation_length:
  assumes "fs \<noteq> []"
  shows "int (length (detectIntonation fs)) \<le> \<lfloor>(real (length fs) - 1) / 5\<rfloor>"
proof -
  from assms have pos: "1 \<le> length fs" by (cases fs) simp_all
  have "length (detectIntonation fs) \<le> (length fs - 5 + 4) div 5"
    using intonation_loop_length [of fs windowSize "[]"]
    by (simp add: detectIntonation_def windowSize_def)
  also have "(length fs - 5 + 4) div 5 = (length fs - 1) div 5"
  proof (cases "5 \<le> length fs")
    case True
    then show ?thesis by simp
  next
    case False
    then show ?thesis by simp
  qed
  finally have "int (length (detectIntonation fs)) \<le> int ((length fs - 1) div 5)"
    by simp
  also have "int ((length fs - 1) div 5) = (int (length fs) - 1) div 5"
    using pos by (simp add: zdiv_int)
  also have "\<dots> = \<lfloor>(real (length fs) - 1) / 5\<rfloor>"
    using floor_divide_of_int_eq [of "int (length fs) - 1" 5, where ?'a = real] by simp
  finally show ?thesis .
qed

lemma detectIntonation_short:
  "length fs \<le> 5 \<Longrightarrow> detectIntonation fs = []"
  by (simp add: detectIntonation_def windowSize_def)

lemma detectIntonation_events:
  assumes "e \<in> set (detectIntonation fs)"
  shows "\<exists>k\<ge>1. 5 * k < length fs \<and> intonation_at fs (5 * k) = Some e
           \<and> ie_timestamp e = timestamp (fs ! (5 * k))"
proof -
  from assms obtain k where k: "5 + 5 * k < length fs" "intonation_at fs (5 + 5 * k) = Some e"
    using intonation_loop_events [of e fs windowSize "[]"]
    by (auto simp: detectIntonation_def windowSize_def)
  then have "1 \<le> Suc k" "5 * Suc k < length fs" "intonation_at fs (5 * Suc k) = Some e"
    by simp_all
  then show ?thesis
    using intonation_at_timestamp by blast
qed

lemma intonation_rising_recording:
  "intonationPatterns (analyzeProsody rising_recording)
     = [\<lparr>ie_timestamp = 500, ie_type = Rising, magnitude = 110\<rparr>]"
  by (simp add: intonationPatterns_analyzeProsody rising_recording_def detectIntonation_def
      windowSize_def intonation_at_def slice_def voiced_def Let_def)

lemma intonation_magnitude_nonneg:
  "e \<in> set (intonationPatterns (analyzeProsody a)) \<Longrightarrow> 0 \<le> magnitude e"
  using detectIntonation_events [of e "frames a"] intonation_at_magnitude_nonneg
  by (auto simp: intonationPatterns_analyzeProsody split: if_splits)

text \<open>
  C5. The magnitude of an intonation event is the absolute relative pitch change of its
  window in percent and is not capped: a pitch that rises from 100 Hz to 210 Hz within one
  window gives an event of magnitude 110, outside the documented range 0-100.
\<close>

theorem intonation_magnitude_above_100:
  "map magnitude (intonationPatterns (analyzeProsody rising_recording)) = [110]"
  by (simp add: intonation_rising_recording)

text \<open>
  C9 as stated, at the empty recording: there are no intonation events, and the stated
  bound \<open>\<lfloor>(frames.length - 1) / 5\<rfloor>\<close> is \<open>-1\<close>.
\<close>

theorem intonation_bound_fails_on_empty:
  "\<not> int (length (intonationPatterns (analyzeProsody createEmptyResult)))
       \<le> \<lfloor>(real (length (frames createEmptyResult)) - 1) / 5\<rfloor>"
  by (simp add: intonationPatterns_analyzeProsody createEmptyResult_def)

text \<open>
  C9, amended. For every non-empty frame sequence the number of intonation events is at
  most \<open>\<lfloor>(frames.length - 1) / 5\<rfloor>\<close>; a recording of 5 or fewer frames (the empty one
  included) has no intonation event; and every event comes from a window
  \<open>frames[5k-5 .. 5k)\<close> with \<open>k \<ge> 1\<close> that is followed by the frame \<open>frames[5k]\<close>, whose
  timestamp it carries.
\<close>

theorem intonation_windows:
  "(frames a \<noteq> [] \<longrightarrow>
      int (length (intonationPatterns (analyzeProsody a)))
        \<le> \<lfloor>(real (length (frames a)) - 1) / 5\<rfloor>)
   \<and> (length (frames a) \<le> 5 \<longrightarrow> intonationPatterns (analyzeProsody a) = [])
   \<and> (\<forall>e \<in> set (intonationPatterns (analyzeProsody a)).
        \<exists>k\<ge>1. 5 * k < length (frames a)
          \<and> intonation_at (frames a) (5 * k) = Some e
          \<and> ie_timestamp e = timestamp (frames a ! (5 * k)))"
  using detectIntonation_length [of "frames a"] detectIntonation_short [of "frames a"]
    detectIntonation_events [of _ "frames a"]
  by (simp add: intonationPatterns_analyzeProsody)

theorem intonation_windows_witness:
  "frames rising_recording \<noteq> []
   \<and> intonationPatterns (analyzeProsody rising_recording)
       = [\<lparr>ie_timestamp = 500, ie_type = Rising, magnitude = 110\<rparr>]
   \<and> int (length (intonationPatterns (analyzeProsody rising_recording)))
       \<le> \<lfloor>(real (length (frames rising_recording)) - 1) / 5\<rfloor>
   \<and> intonation_at (frames rising_recording) 5
       = Some \<lparr>ie_timestamp = 500, ie_type = Rising, magnitude = 110\<rparr>
   \<and> timestamp (frames rising_recording ! 5) = 500
   \<and> length (frames short_recording) \<le> 5
   \<and> intonationPatterns (analyzeProsody short_recording) = []"
proof -
  let ?e = "\<lparr>ie_timestamp = 500, ie_type = Rising, magnitude = 110\<rparr>"
  have h: "frames rising_recording \<noteq> []"
    by (simp add: rising_recording_def)
  have s: "length (frames short_recording) \<le> 5"
    by (simp add: short_recording_def)
  have n: "length (frames rising_recording) = 6"
    by (simp add: rising_recording_def)
  have "?e \<in> set (intonationPatterns (analyzeProsody rising_recording))"
    by (simp add: intonation_rising_recording)
  with intonation_windows [of rising_recording]
  obtain k where k: "1 \<le> k" "5 * k < length (frames rising_recording)"
    "intonation_at (frames rising_recording) (5 * k) = Some ?e"
    "ie_timestamp ?e = timestamp (frames rising_recording ! (5 * k))"
    by blast
  from k(1,2) n have "k = 1" by simp
  with k have at: "intonation_at (frames rising_recording) 5 = Some ?e"
    "timestamp (frames rising_recording ! 5) = 500"
    by simp_all
  show ?thesis
    using h s at intonation_rising_recording intonation_windows [of rising_recording]
      intonation_windows [of short_recording]
    by blast
qed

section \<open>Evaluating \<open>fl\<close>\<close>

text \<open>
  Inside the binade \<open>e\<close> the doubles are the multiples of \<open>2 ^ (e - 52)\<close>. The two lemmas
  \<open>fl_up\<close> (for \<open>\<bar>x\<bar> \<ge> 1\<close>) and \<open>fl_down\<close> (for \<open>\<bar>x\<bar> < 1\<close>) compute \<open>fl x\<close> from the
  binade of \<open>x\<close>.
\<close>

lemma fl_0: "fl 0 = 0"
  by (simp add: fl_def)

lemma binade_up:
  assumes "2 ^ e \<le> \<bar>x\<bar>" and "\<bar>x\<bar> < 2 ^ Suc e"
  shows "binade x = int e"
proof -
  have pos: "0 < \<bar>x\<bar>" using assms(1) by (smt (verit) zero_less_power)
  have "\<lfloor>log 2 \<bar>x\<bar>\<rfloor> = int e"
    using assms pos
    by (subst floor_log_eq_powr_iff) (simp_all add: powr_realpow powr_add)
  then show ?thesis by (simp add: binade_def)
qed

lemma binade_down:
  assumes "1 / 2 ^ k \<le> \<bar>x\<bar>" and "\<bar>x\<bar> < 2 / 2 ^ k" and "k \<le> 1022"
  shows "binade x = - int k"
proof -
  have pos: "0 < \<bar>x\<bar>" using assms(1) by (smt (verit) zero_less_power divide_pos_pos)
  have a: "(2::real) powr real_of_int (- int k) = 1 / 2 ^ k"
    by (simp add: powr_minus powr_realpow divide_inverse)
  have "(2::real) powr real_of_int (- int k + 1) = 2 powr (real_of_int (- int k) + 1)"
    by simp
  also have "\<dots> = 2 / 2 ^ k"
    by (simp only: powr_add a) simp
  finally have b: "(2::real) powr real_of_int (- int k + 1) = 2 / 2 ^ k" .
  have "\<lfloor>log 2 \<bar>x\<bar>\<rfloor> = - int k \<longleftrightarrow>
      2 powr real_of_int (- int k) \<le> \<bar>x\<bar> \<and> \<bar>x\<bar> < 2 powr real_of_int (- int k + 1)"
    using pos by (intro floor_log_eq_powr_iff) simp_all
  then have "\<lfloor>log 2 \<bar>x\<bar>\<rfloor> = - int k"
    using assms(1,2) by (simp only: a b) 
  then show ?thesis using assms(3) by (simp add: binade_def)
qed

lemma fl_up:
  assumes "2 ^ e \<le> \<bar>x\<bar>" and "\<bar>x\<bar> < 2 ^ Suc e" and "e \<le> 52"
  shows "fl x = of_int (roundTiesToEven (x * 2 ^ (52 - e))) / 2 ^ (52 - e)"
proof -
  have nz: "x \<noteq> 0" using assms(1) by (smt (verit) zero_less_power)
  have "(2::real) powr (of_int (int e) - 52) = 1 / 2 ^ (52 - e)"
  proof -
    have "real_of_int (int e) - 52 = - real (52 - e)" using assms(3) by simp
    then show ?thesis by (simp only: powr_minus powr_realpow) (simp add: divide_inverse powr_realpow)
  qed
  then show ?thesis
    using nz by (simp add: fl_def binade_up [OF assms(1,2)])
qed

lemma fl_down:
  assumes "1 / 2 ^ k \<le> \<bar>x\<bar>" and "\<bar>x\<bar> < 2 / 2 ^ k" and "k \<le> 1022"
  shows "fl x = of_int (roundTiesToEven (x * 2 ^ (52 + k))) / 2 ^ (52 + k)"
proof -
  have nz: "x \<noteq> 0" using assms(1) by (smt (verit) zero_less_power divide_pos_pos)
  have "(2::real) powr (of_int (- int k) - 52) = 1 / 2 ^ (52 + k)"
  proof -
    have "real_of_int (- int k) - 52 = - real (52 + k)" by simp
    then show ?thesis by (simp only: powr_minus powr_realpow) (simp add: divide_inverse powr_realpow)
  qed
  then show ?thesis
    using nz by (simp add: fl_def binade_down [OF assms])
qed

lemma fl_1: "fl 1 = 1"
  by (subst fl_up [where e = 0]) (simp_all add: roundTiesToEven_def)

lemma fl_2: "fl 2 = 2"
  by (subst fl_up [where e = 1]) (simp_all add: roundTiesToEven_def)




section \<open>Properties of the fluency calculator\<close>

lemma wordsPerMinute_of_total:
  "\<exists>w. wordsPerMinute_of n d = Some w"
  by (simp add: wordsPerMinute_of_def js_div_def Let_def)

lemma wordsPerMinute_of_zero:
  "wordsPerMinute_of n 0 = Some 0"
  by (simp add: wordsPerMinute_of_def ddiv_def fl_0)

lemma wordsPerMinute_of_eval:
  assumes "fl (d / 60000) = m" and "0 < m" and "fl (real n / m) = q"
  shows "wordsPerMinute_of n d = Some \<lfloor>q + 1 / 2\<rfloor>"
  using assms by (simp add: wordsPerMinute_of_def ddiv_def js_div_def js_round_def)

lemma wpm_2_in_60000: "wordsPerMinute_of 2 60000 = Some 2"
proof -
  have "wordsPerMinute_of 2 60000 = Some \<lfloor>2 + 1 / 2 :: real\<rfloor>"
    by (rule wordsPerMinute_of_eval [where m = 1]) (simp_all add: fl_1 fl_2)
  then show ?thesis by simp
qed

lemma wpm_2_in_1000: "wordsPerMinute_of 2 1000 = Some 120"
proof -
  have m: "fl (1000 / 60000) = 4803839602528529 / 288230376151711744"
    by (subst fl_down [where k = 6]) (simp_all add: roundTiesToEven_def)
  have q: "fl (real 2 / (4803839602528529 / 288230376151711744)) = 120"
    by (subst fl_up [where e = 6]) (simp_all add: roundTiesToEven_def)
  have "wordsPerMinute_of 2 1000 = Some \<lfloor>120 + 1 / 2 :: real\<rfloor>"
    by (rule wordsPerMinute_of_eval [OF m _ q]) simp
  then show ?thesis by simp
qed


lemma wpm_3_in_1600: "wordsPerMinute_of 3 1600 = Some 112"
proof -
  have m: "fl (1600 / 60000) = 7686143364045647 / 288230376151711744"
    by (subst fl_down [where k = 6]) (simp_all add: roundTiesToEven_def)
  have q: "fl (real 3 / (7686143364045647 / 288230376151711744))
      = 7916483719987199 / 70368744177664"
    by (subst fl_up [where e = 6]) (simp_all add: roundTiesToEven_def)
  have "wordsPerMinute_of 3 1600
      = Some \<lfloor>7916483719987199 / 70368744177664 + 1 / 2 :: real\<rfloor>"
    by (rule wordsPerMinute_of_eval [OF m _ q]) simp
  then show ?thesis by simp
qed

lemma fillerRatio_of_Some:
  "fillerRatio_of f n = Some (if n > 0 then real f / real n else 0)"
  by (simp add: fillerRatio_of_def js_div_def)

lemma calculateFluency_Some:
  assumes "wordsPerMinute_of (length ws) d = Some w"
  shows "calculateFluency ws a p d =
     Some \<lparr>wordsPerMinute = w,
           fm_pauseCount = pauseCount p,
           fm_longPauseCount = longPauseCount p,
           fillerCount = length (filter isFiller ws),
           fillerRatio = (if length ws > 0
                          then real (length (filter isFiller ws)) / real (length ws) else 0),
           repetitionCount = length (filter isRepeat ws),
           hesitationScore =
             hesitationScore_of (pauseCount p) (length (filter isFiller ws))
               (length (filter isRepeat ws)) (longPauseCount p),
           speechToSilenceRatio = 1 - silenceRatio a,
           overallFluencyScore =
             overallFluencyScore_of w
               (if length ws > 0
                then real (length (filter isFiller ws)) / real (length ws) else 0)
               (longPauseCount p) (1 - silenceRatio a)
               (hesitationScore_of (pauseCount p) (length (filter isFiller ws))
                  (length (filter isRepeat ws)) (longPauseCount p))\<rparr>"
  unfolding calculateFluency_def assms fillerRatio_of_Some
  by simp

lemma hesitationScore_of_mono:
  "f1 \<le> f2 \<Longrightarrow> hesitationScore_of pc f2 r lp \<le> hesitationScore_of pc f1 r lp"
  by (simp add: hesitationScore_of_def)

lemma overallFluencyScore_of_decreasing:
  assumes "r1 < r2" and "h2 \<le> h1"
  shows "overallFluencyScore_of w r2 lp s h2 \<le> overallFluencyScore_of w r1 lp s h1"
    and "0 < overallFluencyScore_of w r1 lp s h1 \<Longrightarrow> h1 \<le> 100 \<Longrightarrow> 0 \<le> r1 \<Longrightarrow>
         overallFluencyScore_of w r2 lp s h2 < overallFluencyScore_of w r1 lp s h1"
proof -
  let ?x1 = "(wpmFactor w - r1 * 30 - real lp * 5 - silencePenalty s + h1) / 2"
  let ?x2 = "(wpmFactor w - r2 * 30 - real lp * 5 - silencePenalty s + h2) / 2"
  have lt: "?x2 < ?x1" using assms by simp
  have v1: "overallFluencyScore_of w r1 lp s h1 = max 0 (min 100 ?x1)"
    and v2: "overallFluencyScore_of w r2 lp s h2 = max 0 (min 100 ?x2)"
    by (simp_all add: overallFluencyScore_of_def)
  show "overallFluencyScore_of w r2 lp s h2 \<le> overallFluencyScore_of w r1 lp s h1"
    unfolding v1 v2 using lt by linarith
  assume pos: "0 < overallFluencyScore_of w r1 lp s h1" and h: "h1 \<le> 100" and r: "0 \<le> r1"
  have "wpmFactor w \<le> 100" by (simp add: wpmFactor_def)
  moreover have "0 \<le> silencePenalty s" by (simp add: silencePenalty_def)
  ultimately have "?x1 \<le> 100" using h r by simp
  with pos lt show "overallFluencyScore_of w r2 lp s h2 < overallFluencyScore_of w r1 lp s h1"
    unfolding v1 v2 by linarith
qed



text \<open>
  C10. \<open>calculateFluency\<close> is total: for every input both guarded divisions are defined,
  so it returns metrics whose fields are all numbers. For an empty word list these have
  \<open>fillerRatio = 0\<close>, \<open>fillerCount = 0\<close> and \<open>repetitionCount = 0\<close>, and for
  \<open>durationMs = 0\<close> they have \<open>wordsPerMinute = 0\<close>.
\<close>

theorem calculateFluency_degenerate:
  "\<exists>m. calculateFluency ws a p d = Some m
     \<and> (ws = [] \<longrightarrow> fillerRatio m = 0 \<and> fillerCount m = 0 \<and> repetitionCount m = 0)
     \<and> (d = 0 \<longrightarrow> wordsPerMinute m = 0)"
proof -
  obtain w where w: "wordsPerMinute_of (length ws) d = Some w"
    using wordsPerMinute_of_total by blast
  then have "d = 0 \<longrightarrow> w = 0"
    using wordsPerMinute_of_zero [of "length ws"] by auto
  then show ?thesis
    by (simp add: calculateFluency_Some [OF w])
qed

theorem calculateFluency_degenerate_witness:
  "\<exists>m. calculateFluency [] createEmptyResult createEmptyProsodyMetrics 0 = Some m
     \<and> fillerRatio m = 0 \<and> fillerCount m = 0 \<and> repetitionCount m = 0
     \<and> wordsPerMinute m = 0"
  using calculateFluency_degenerate [of "[]" createEmptyResult createEmptyProsodyMetrics 0]
  by simp

text \<open>
  C6 as stated, at a hesitant minute: two words, twelve long pauses, silence ratio 0.9.
  Flagging one of the two words as a filler raises \<open>fillerRatio\<close> from 0 to 1/2, and
  \<open>overallFluencyScore\<close> is 0 before and after: both values are below the clamp.
\<close>

theorem filler_ratio_clamped_at_zero:
  "map_option fillerRatio
     (calculateFluency [plain_word ''well'', plain_word ''yes''] hesitant_audio hesitant_prosody 60000)
     = Some 0
   \<and> map_option fillerRatio
     (calculateFluency [filler_word ''um'', plain_word ''yes''] hesitant_audio hesitant_prosody 60000)
     = Some (1 / 2)
   \<and> map_option overallFluencyScore
     (calculateFluency [plain_word ''well'', plain_word ''yes''] hesitant_audio hesitant_prosody 60000)
     = Some 0
   \<and> map_option overallFluencyScore
     (calculateFluency [filler_word ''um'', plain_word ''yes''] hesitant_audio hesitant_prosody 60000)
     = Some 0"
proof -
  have "length [plain_word ''well'', plain_word ''yes''] = 2"
    and "length [filler_word ''um'', plain_word ''yes''] = 2"
    by simp_all
  then have a: "wordsPerMinute_of (length [plain_word ''well'', plain_word ''yes'']) 60000 = Some 2"
    and b: "wordsPerMinute_of (length [filler_word ''um'', plain_word ''yes'']) 60000 = Some 2"
    by (simp_all only: wpm_2_in_60000)
  show ?thesis
    unfolding calculateFluency_Some [OF a] calculateFluency_Some [OF b]
    by (simp add: plain_word_def filler_word_def hesitant_audio_def hesitant_prosody_def
        overallFluencyScore_of_def hesitationScore_of_def wpmFactor_def silencePenalty_def)
qed

text \<open>
  C6, amended. With the word count, the repetition count, the pause counts, the duration
  and the silence ratio held fixed, flagging strictly more words as fillers strictly
  increases \<open>fillerRatio\<close> and never increases \<open>overallFluencyScore\<close>; it strictly
  decreases the score whenever the score before is above 0, the lower clamp.
\<close>

theorem calculateFluency_filler_monotone:
  assumes "length ws1 = length ws2"
    and "length (filter isRepeat ws1) = length (filter isRepeat ws2)"
    and "length (filter isFiller ws1) < length (filter isFiller ws2)"
  shows "\<exists>m1 m2. calculateFluency ws1 a p d = Some m1 \<and> calculateFluency ws2 a p d = Some m2
     \<and> fillerRatio m1 < fillerRatio m2
     \<and> overallFluencyScore m2 \<le> overallFluencyScore m1
     \<and> (0 < overallFluencyScore m1 \<longrightarrow> overallFluencyScore m2 < overallFluencyScore m1)"
proof -
  let ?n = "length ws2"
  let ?f1 = "length (filter isFiller ws1)" and ?f2 = "length (filter isFiller ws2)"
  let ?r = "length (filter isRepeat ws2)"
  let ?h1 = "hesitationScore_of (pauseCount p) ?f1 ?r (longPauseCount p)"
  let ?h2 = "hesitationScore_of (pauseCount p) ?f2 ?r (longPauseCount p)"
  have "?f2 \<le> ?n" by simp
  with assms(3) have n: "0 < ?n" by linarith
  then have ratio: "real ?f1 / real ?n < real ?f2 / real ?n"
    using assms(3) by (simp add: divide_strict_right_mono)
  have r0: "0 \<le> real ?f1 / real ?n" by simp
  have h: "?h2 \<le> ?h1"
    using assms(3) by (simp add: hesitationScore_of_mono)
  have h100: "?h1 \<le> 100"
    by (simp add: hesitationScore_of_def)
  obtain w where w2: "wordsPerMinute_of (length ws2) d = Some w"
    using wordsPerMinute_of_total by blast
  then have w1: "wordsPerMinute_of (length ws1) d = Some w"
    by (simp add: assms(1))
  show ?thesis
    using n ratio overallFluencyScore_of_decreasing(1) [OF ratio h]
      overallFluencyScore_of_decreasing(2) [OF ratio h _ h100 r0]
    by (simp add: calculateFluency_Some [OF w1] calculateFluency_Some [OF w2] assms(1,2))
qed

theorem calculateFluency_filler_monotone_witness:
  "length [plain_word ''well'', plain_word ''yes''] = length [filler_word ''um'', plain_word ''yes'']
   \<and> length (filter isRepeat [plain_word ''well'', plain_word ''yes''])
       = length (filter isRepeat [filler_word ''um'', plain_word ''yes''])
   \<and> length (filter isFiller [plain_word ''well'', plain_word ''yes''])
       < length (filter isFiller [filler_word ''um'', plain_word ''yes''])
   \<and> (\<exists>m1 m2.
        calculateFluency [plain_word ''well'', plain_word ''yes''] fluent_audio fluent_prosody 1000
          = Some m1
        \<and> calculateFluency [filler_word ''um'', plain_word ''yes''] fluent_audio fluent_prosody 1000
          = Some m2
        \<and> fillerRatio m1 < fillerRatio m2
        \<and> overallFluencyScore m1 = 195 / 2
        \<and> overallFluencyScore m2 < overallFluencyScore m1)"
proof -
  let ?ws1 = "[plain_word ''well'', plain_word ''yes'']"
  let ?ws2 = "[filler_word ''um'', plain_word ''yes'']"
  have h: "length ?ws1 = length ?ws2"
    "length (filter isRepeat ?ws1) = length (filter isRepeat ?ws2)"
    "length (filter isFiller ?ws1) < length (filter isFiller ?ws2)"
    by (simp_all add: plain_word_def filler_word_def)
  from calculateFluency_filler_monotone [OF h, of fluent_audio fluent_prosody 1000]
  obtain m1 m2 where m:
    "calculateFluency ?ws1 fluent_audio fluent_prosody 1000 = Some m1"
    "calculateFluency ?ws2 fluent_audio fluent_prosody 1000 = Some m2"
    "fillerRatio m1 < fillerRatio m2"
    "0 < overallFluencyScore m1 \<longrightarrow> overallFluencyScore m2 < overallFluencyScore m1"
    by blast
  have "length ?ws1 = 2" by simp
  then have w: "wordsPerMinute_of (length ?ws1) 1000 = Some 120"
    by (simp only: wpm_2_in_1000)
  have "map_option overallFluencyScore (calculateFluency ?ws1 fluent_audio fluent_prosody 1000)
      = Some (195 / 2)"
    unfolding calculateFluency_Some [OF w]
    by (simp add: plain_word_def fluent_audio_def fluent_prosody_def
        overallFluencyScore_of_def hesitationScore_of_def wpmFactor_def silencePenalty_def)
  with m(1) have v: "overallFluencyScore m1 = 195 / 2" by simp
  with m(4) have "overallFluencyScore m2 < overallFluencyScore m1" by simp
  with h m v show ?thesis by blast
qed

section \<open>Properties of the session orchestrator\<close>





lemma trim_blank: "trim ''  '' = []" "trim [] = []"
  by (simp_all add: trim_def is_ws_def)

subsection \<open>The session \<open>tie_session\<close>, stopped at time 250\<close>











text \<open>
  C2. If the transcript at \<open>stop()\<close> (the accumulated final text, trimmed, or else the
  last interim text, trimmed) is empty, \<open>stop()\<close> returns \<open>null\<close>, whatever the hook state
  is otherwise and however many frames the extractor has captured.
\<close>

theorem stop_empty_transcript:
  assumes "rawTranscript_of st = []"
  shows "snd (stop createEmptyConfidences now st) = None"
  using assms by (simp add: stop_def Let_def)

theorem stop_empty_transcript_witness:
  "rawTranscript_of (capturing ''  '' [] []) = []
   \<and> length (frames (extractor_stop (the (audioExtractorRef (capturing ''  '' [] []))))) = 6
   \<and> snd (stop (\<lambda>transcript. []) 1600 (capturing ''  '' [] [])) = None"
proof -
  have h: "rawTranscript_of (capturing ''  '' [] []) = []"
    by (simp add: rawTranscript_of_def capturing_def trim_blank)
  have "length (frames (extractor_stop (the (audioExtractorRef (capturing ''  '' [] []))))) = 6"
    by (simp add: capturing_def rising_recording_def)
  with h stop_empty_transcript [OF h, of "\<lambda>transcript. []" 1600] show ?thesis by simp
qed

text \<open>
  C7. A recognition error with code \<open>no-speech\<close> or \<open>aborted\<close> changes nothing: the hook
  state, its \<open>error\<close> included, stays as it is and no callback is invoked. Every other
  code sets \<open>error\<close> to \<open>Speech recognition error: code\<close> and passes that error to the
  caller's \<open>onError\<close> callback (when the caller gave one); nothing else of the state
  changes, so the session is still analyzing and \<open>onend\<close> restarts recognition as before.
\<close>

theorem recognition_onerror_surfacing:
  "(code = ''no-speech'' \<or> code = ''aborted'' \<longrightarrow>
      recognition_onerror options code st = (st, []))
   \<and> (code \<noteq> ''no-speech'' \<and> code \<noteq> ''aborted'' \<longrightarrow>
      fst (recognition_onerror options code st)
        = st\<lparr>error := Some (''Speech recognition error: '' @ code)\<rparr>
      \<and> snd (recognition_onerror options code st)
        = (if has_onError options
           then [CallOnError (''Speech recognition error: '' @ code)] else [])
      \<and> isAnalyzing (fst (recognition_onerror options code st)) = isAnalyzing st
      \<and> snd (recognition_onend (fst (recognition_onerror options code st)))
        = snd (recognition_onend st))"
  by (auto simp: recognition_onerror_def recognition_onend_def Let_def)

theorem recognition_onerror_surfacing_witness:
  "recognition_onerror \<lparr>language = None, has_onInterimResult = False, has_onError = True\<rparr>
      ''no-speech'' (capturing [] [] []) = (capturing [] [] [], [])
   \<and> recognition_onerror \<lparr>language = None, has_onInterimResult = False, has_onError = True\<rparr>
      ''aborted'' (capturing [] [] []) = (capturing [] [] [], [])
   \<and> ''network'' \<noteq> ''no-speech'' \<and> ''network'' \<noteq> ''aborted''
   \<and> fst (recognition_onerror
        \<lparr>language = None, has_onInterimResult = False, has_onError = True\<rparr>
        ''network'' (capturing [] [] []))
       = (capturing [] [] [])\<lparr>error := Some ''Speech recognition error: network''\<rparr>
   \<and> snd (recognition_onerror
        \<lparr>language = None, has_onInterimResult = False, has_onError = True\<rparr>
        ''network'' (capturing [] [] [])) = [CallOnError ''Speech recognition error: network'']
   \<and> snd (recognition_onend (fst (recognition_onerror
        \<lparr>language = None, has_onInterimResult = False, has_onError = True\<rparr>
        ''network'' (capturing [] [] [])))) = [RecognitionStart]"
proof -
  let ?o = "\<lparr>language = None, has_onInterimResult = False, has_onError = True\<rparr>"
  let ?st = "capturing [] [] []"
  have restart: "snd (recognition_onend ?st) = [RecognitionStart]"
    by (simp add: recognition_onend_def capturing_def)
  have benign: "recognition_onerror ?o ''no-speech'' ?st = (?st, [])"
    "recognition_onerror ?o ''aborted'' ?st = (?st, [])"
    using recognition_onerror_surfacing [of "''no-speech''" ?o ?st]
      recognition_onerror_surfacing [of "''aborted''" ?o ?st]
    by simp_all
  have code: "''network'' \<noteq> ''no-speech'' \<and> ''network'' \<noteq> ''aborted''"
    by simp
  have other: "fst (recognition_onerror ?o ''network'' ?st)
        = ?st\<lparr>error := Some (''Speech recognition error: '' @ ''network'')\<rparr>"
    "snd (recognition_onerror ?o ''network'' ?st)
        = (if has_onError ?o
           then [CallOnError (''Speech recognition error: '' @ ''network'')] else [])"
    "snd (recognition_onend (fst (recognition_onerror ?o ''network'' ?st)))
        = snd (recognition_onend ?st)"
    using recognition_onerror_surfacing [of "''network''" ?o ?st] code by blast+
  show ?thesis
    using other benign restart by simp
qed

end
